theory Spec2Isabelle
  imports Complex_Main "HOL-Library.Word"
begin

section \<open>JavaScript numbers: the fragment of IEEE 754 binary64 the tool uses\<close>

text \<open>
  Every number of the duplicate finder is a JavaScript \<^verbatim>\<open>number\<close>, an IEEE 754
  binary64 value, and \<^verbatim>\<open>+\<close>, \<^verbatim>\<open>*\<close> and \<^verbatim>\<open>/\<close> round their exact result to the
  nearest double, ties to even. The values that occur are never negative: bytes
  \<^verbatim>\<open>0..255\<close>, the positive literals \<^verbatim>\<open>0.299\<close>, \<^verbatim>\<open>0.587\<close>, \<^verbatim>\<open>0.114\<close>, \<^verbatim>\<open>100\<close>, \<^verbatim>\<open>90\<close>,
  string lengths, and sums, products and quotients of those. A finite double is written
  \<open>Fin m e\<close> for the value \<open>m * 2 ^ e\<close>, normalised to a 53-bit significand
  (\<open>2 ^ 52 \<le> m < 2 ^ 53\<close>), zero being \<open>Fin 0 0\<close>. \<open>NaN\<close> is the result of \<^verbatim>\<open>0 / 0\<close> and of
  arithmetic on \<^verbatim>\<open>undefined\<close>. The values stay between \<^verbatim>\<open>0.114\<close> and the sum of all bytes of
  an array, so neither subnormal numbers nor infinities arise and the exponent is not
  bounded here.
\<close>

datatype number = NaN | Fin int int

function bitlen :: "int \<Rightarrow> nat" where
  "bitlen n = (if n \<le> 0 then 0 else Suc (bitlen (n div 2)))"
  by pat_completeness auto
termination
  by (relation "measure nat") auto

declare bitlen.simps [simp del]

text \<open>
  \<open>roundToDouble m e\<close> is the double nearest to the exact value \<open>m * 2 ^ e\<close>: a significand
  of at most 53 bits is exact; a longer one loses its low \<open>k\<close> bits, rounded to nearest,
  a tie going to the even significand.
\<close>

definition roundToDouble :: "int \<Rightarrow> int \<Rightarrow> number" where
  "roundToDouble m e =
     (if m \<le> 0 then Fin 0 0
      else if bitlen m \<le> 53 then Fin (m * 2 ^ (53 - bitlen m)) (e - int (53 - bitlen m))
      else
        (let k = bitlen m - 53;
             q = m div 2 ^ k;
             r = m mod 2 ^ k;
             half = 2 ^ (k - 1);
             q' = (if half < r \<or> (r = half \<and> odd q) then q + 1 else q)
         in if q' = 2 ^ 53 then Fin (2 ^ 52) (e + int k + 1) else Fin q' (e + int k)))"

definition fadd :: "number \<Rightarrow> number \<Rightarrow> number" where
  "fadd x y =
     (case (x, y) of
        (Fin m1 e1, Fin m2 e2) \<Rightarrow>
          (let e = min e1 e2
           in roundToDouble (m1 * 2 ^ nat (e1 - e) + m2 * 2 ^ nat (e2 - e)) e)
      | _ \<Rightarrow> NaN)"

definition fmul :: "number \<Rightarrow> number \<Rightarrow> number" where
  "fmul x y =
     (case (x, y) of
        (Fin m1 e1, Fin m2 e2) \<Rightarrow> roundToDouble (m1 * m2) (e1 + e2)
      | _ \<Rightarrow> NaN)"

text \<open>
  Division keeps 56 further bits of the quotient and a sticky bit for a non-zero remainder,
  which is enough to round correctly. A zero divisor gives \<open>NaN\<close>: the tool only ever
  divides by a length, and where that length is zero the dividend is zero too
  (\<^verbatim>\<open>0 / 0\<close>); a non-zero dividend over zero (\<^verbatim>\<open>Infinity\<close>) does not occur.
\<close>

definition fdiv :: "number \<Rightarrow> number \<Rightarrow> number" where
  "fdiv x y =
     (case (x, y) of
        (Fin m1 e1, Fin m2 e2) \<Rightarrow>
          (if m2 = 0 then NaN
           else roundToDouble
                  (2 * ((m1 * 2 ^ 56) div m2) + (if (m1 * 2 ^ 56) mod m2 = 0 then 0 else 1))
                  (e1 - e2 - 57))
      | _ \<Rightarrow> NaN)"

text \<open>\<^verbatim>\<open>x >= y\<close>; false as soon as one side is \<open>NaN\<close>.\<close>

definition fge :: "number \<Rightarrow> number \<Rightarrow> bool" where
  "fge x y =
     (case (x, y) of
        (Fin m1 e1, Fin m2 e2) \<Rightarrow>
          (let e = min e1 e2 in m2 * 2 ^ nat (e2 - e) \<le> m1 * 2 ^ nat (e1 - e))
      | _ \<Rightarrow> False)"

definition ofNat :: "nat \<Rightarrow> number" where
  "ofNat n = roundToDouble (int n) 0"

text \<open>The decimal literal \<open>p / q\<close> of the source text denotes the double nearest to it.\<close>

definition decimal :: "nat \<Rightarrow> nat \<Rightarrow> number" where
  "decimal p q = fdiv (ofNat p) (ofNat q)"

text \<open>The exact rational value of a finite double.\<close>

fun valof :: "number \<Rightarrow> rat" where
  "valof (Fin m e) = of_int m * 2 powi e"
| "valof NaN = 0"

fun isFinite :: "number \<Rightarrow> bool" where
  "isFinite (Fin m e) = True"
| "isFinite NaN = False"


section \<open>Data model\<close>

text \<open>
  The browser's \<^verbatim>\<open>File\<close>; \<open>mime\<close> is its \<^verbatim>\<open>type\<close>, \<open>bytes\<close> its \<^verbatim>\<open>size\<close>.
\<close>

record File =
  fileName :: string
  mime :: string
  bytes :: nat

record ImageInfo =
  width :: nat
  height :: nat
  infoSize :: nat
  infoType :: string
  infoName :: string

record ImageWithHash =
  imageFile :: File
  url :: string
  info :: ImageInfo
  hash :: string

text \<open>\<open>imageFile\<close> above is the field \<^verbatim>\<open>file\<close>; \<open>seedHash\<close> is the field \<^verbatim>\<open>hash\<close> of \<^verbatim>\<open>DuplicateGroup\<close>.\<close>

record DuplicateGroup =
  seedHash :: string
  images :: "ImageWithHash list"


section \<open>generateImageHash\<close>

text \<open>
  \<^verbatim>\<open>pixels\<close> is the \<^verbatim>\<open>Uint8ClampedArray\<close> of \<^verbatim>\<open>getImageData(0, 0, 8, 8)\<close>: 256 bytes, four
  (red, green, blue, alpha) per sample, the samples in row-major order. \<^verbatim>\<open>pixels[k]\<close>
  beyond the end is \<^verbatim>\<open>undefined\<close>, which arithmetic turns into \<open>NaN\<close>.
\<close>

definition byteAt :: "8 word list \<Rightarrow> nat \<Rightarrow> number" where
  "byteAt pixels k = (if k < length pixels then ofNat (unat (pixels ! k)) else NaN)"

text \<open>
  \<^verbatim>\<open>pixels[i] * 0.299 + pixels[i + 1] * 0.587 + pixels[i + 2] * 0.114\<close>: three rounded
  products, added from the left with a rounding after each addition.
\<close>

definition grayAt :: "8 word list \<Rightarrow> nat \<Rightarrow> number" where
  "grayAt pixels i =
     fadd (fadd (fmul (byteAt pixels i) (decimal 299 1000))
                (fmul (byteAt pixels (i + 1)) (decimal 587 1000)))
          (fmul (byteAt pixels (i + 2)) (decimal 114 1000))"

text \<open>The same expression on the three colour bytes of one sample.\<close>

definition luminance :: "8 word \<Rightarrow> 8 word \<Rightarrow> 8 word \<Rightarrow> number" where
  "luminance r g b =
     fadd (fadd (fmul (ofNat (unat r)) (decimal 299 1000))
                (fmul (ofNat (unat g)) (decimal 587 1000)))
          (fmul (ofNat (unat b)) (decimal 114 1000))"

text \<open>
  \<^verbatim>\<open>for (let i = 0; i < pixels.length; i += 4) { ...; grayscale.push(gray); total += gray }\<close>
\<close>

function grayscaleLoop :: "8 word list \<Rightarrow> nat \<Rightarrow> number list \<times> number \<Rightarrow> number list \<times> number" where
  "grayscaleLoop pixels i (grayscale, sumGray) =
     (if i < length pixels
      then (let gray = grayAt pixels i
            in grayscaleLoop pixels (i + 4) (grayscale @ [gray], fadd sumGray gray))
      else (grayscale, sumGray))"
  by pat_completeness auto
termination
  by (relation "measure (\<lambda>(pixels, i, acc). length pixels - i)") auto

declare grayscaleLoop.simps [simp del]

text \<open>
  The body of \<^verbatim>\<open>img.onload\<close> from the pixel data on: the running sum (\<^verbatim>\<open>total\<close> in the
  source, \<open>sumGray\<close> here), the average, and
  one character per gray value, \<^verbatim>\<open>'1'\<close> where \<^verbatim>\<open>gray >= average\<close>.
\<close>

definition hashPixels :: "8 word list \<Rightarrow> string" where
  "hashPixels pixels =
     (case grayscaleLoop pixels 0 ([], ofNat 0) of
        (grayscale, sumGray) \<Rightarrow>
          (let average = fdiv sumGray (ofNat (length grayscale))
           in fold (\<lambda>gray hash. hash @ (if fge gray average then ''1'' else ''0''))
                grayscale ''''))"

text \<open>
  Loading the file into an \<^verbatim>\<open>Image\<close> and drawing it on the 8 by 8 canvas belong to the
  browser. \<open>loader\<close> stands for them: \<open>None\<close> when \<^verbatim>\<open>img.onerror\<close> fires, otherwise the
  image's width and height and the pixel data read back from the canvas (\<open>None\<close> when
  \<^verbatim>\<open>getContext('2d')\<close> gives \<^verbatim>\<open>null\<close>).
\<close>

record LoadedImage =
  imgWidth :: nat
  imgHeight :: nat
  canvasData :: "8 word list option"

type_synonym loader = "File \<Rightarrow> LoadedImage option"

datatype error = FailedToLoadImage | FailedToGetCanvasContext

definition generateImageHash :: "loader \<Rightarrow> File \<Rightarrow> error + string" where
  "generateImageHash load f =
     (case load f of
        None \<Rightarrow> Inl FailedToLoadImage
      | Some img \<Rightarrow>
          (case canvasData img of
             None \<Rightarrow> Inl FailedToGetCanvasContext
           | Some pixels \<Rightarrow> Inr (hashPixels pixels)))"

text \<open>\<^verbatim>\<open>getImageInfo\<close> of \<^verbatim>\<open>utils/imageProcessing.ts\<close> loads the same file.\<close>

definition getImageInfo :: "loader \<Rightarrow> File \<Rightarrow> error + ImageInfo" where
  "getImageInfo load f =
     (case load f of
        None \<Rightarrow> Inl FailedToLoadImage
      | Some img \<Rightarrow>
          Inr \<lparr>width = imgWidth img, height = imgHeight img, infoSize = bytes f,
               infoType = mime f, infoName = fileName f\<rparr>)"

text \<open>
  The quantities the statements about the fingerprint speak of, for the 256 bytes of an
  8 by 8 grid: \<open>runningMean\<close> is the average as the loop computes it, the sum taken from
  the left in scan order with a rounding after each addition; \<open>exactMean\<close> is the
  arithmetic mean of the same 64 gray values in exact arithmetic.
\<close>

definition grayValues :: "8 word list \<Rightarrow> number list" where
  "grayValues pixels = map (\<lambda>k. grayAt pixels (4 * k)) [0..<64]"

definition runningMean :: "8 word list \<Rightarrow> number" where
  "runningMean pixels = fdiv (fold (\<lambda>gray t. fadd t gray) (grayValues pixels) (ofNat 0)) (ofNat 64)"

definition exactMean :: "8 word list \<Rightarrow> rat" where
  "exactMean pixels = sum_list (map valof (grayValues pixels)) / 64"

definition constantLuminance :: "8 word list \<Rightarrow> bool" where
  "constantLuminance pixels = list_all (\<lambda>gray. gray = grayAt pixels 0) (grayValues pixels)"

definition sameColours :: "8 word list \<Rightarrow> 8 word list \<Rightarrow> bool" where
  "sameColours p q = list_all (\<lambda>k. k mod 4 = 3 \<or> p ! k = q ! k) [0..<256]"

text \<open>The pixel data of an 8 by 8 grid of a single colour \<open>r g b\<close> with alpha \<open>a\<close>.\<close>

definition solid :: "8 word \<Rightarrow> 8 word \<Rightarrow> 8 word \<Rightarrow> 8 word \<Rightarrow> 8 word list" where
  "solid r g b a = concat (replicate 64 [r, g, b, a])"


section \<open>calculateSimilarity\<close>

text \<open>\<^verbatim>\<open>hash[i]\<close>: the character, or \<^verbatim>\<open>undefined\<close> (\<open>None\<close>) beyond the end.\<close>

definition charAt :: "string \<Rightarrow> nat \<Rightarrow> char option" where
  "charAt s i = (if i < length s then Some (s ! i) else None)"

definition countDifferences :: "string \<Rightarrow> string \<Rightarrow> nat" where
  "countDifferences hash1 hash2 =
     fold (\<lambda>i differences. if charAt hash1 i \<noteq> charAt hash2 i then differences + 1 else differences)
       [0..<length hash1] 0"

text \<open>
  \<^verbatim>\<open>((hash1.length - differences) / hash1.length) * 100\<close>. The subtraction is exact:
  \<open>differences\<close> never exceeds the length.
\<close>

definition calculateSimilarity :: "string \<Rightarrow> string \<Rightarrow> number" where
  "calculateSimilarity hash1 hash2 =
     (let differences = countDifferences hash1 hash2
      in fmul (fdiv (ofNat (length hash1 - differences)) (ofNat (length hash1))) (ofNat 100))"


section \<open>findDuplicates\<close>

text \<open>
  The source compares with the literal \<^verbatim>\<open>90\<close>. The loops are written here for any
  threshold, and \<open>findDuplicates\<close> is their instance at \<open>90\<close>. The state of the inner loop
  is \<^verbatim>\<open>group\<close> (\<open>grp\<close>) and \<^verbatim>\<open>processed\<close>, that of the outer loop \<^verbatim>\<open>groups\<close> and \<^verbatim>\<open>processed\<close>.
\<close>

definition innerStep ::
  "number \<Rightarrow> ImageWithHash list \<Rightarrow> nat \<Rightarrow> nat \<Rightarrow> ImageWithHash list \<times> nat set
     \<Rightarrow> ImageWithHash list \<times> nat set" where
  "innerStep threshold imageList i j = (\<lambda>(grp, processed).
     if j \<in> processed then (grp, processed)
     else
       (let similarity = calculateSimilarity (hash (imageList ! i)) (hash (imageList ! j))
        in if fge similarity threshold
           then (grp @ [imageList ! j], insert j processed)
           else (grp, processed)))"

definition outerStep ::
  "number \<Rightarrow> ImageWithHash list \<Rightarrow> nat \<Rightarrow> DuplicateGroup list \<times> nat set
     \<Rightarrow> DuplicateGroup list \<times> nat set" where
  "outerStep threshold imageList i = (\<lambda>(groups, processed).
     if i \<in> processed then (groups, processed)
     else
       (case fold (innerStep threshold imageList i) [i + 1..<length imageList]
               ([imageList ! i], insert i processed) of
          (grp, processed') \<Rightarrow>
            if 1 < length grp
            then (groups @ [\<lparr>seedHash = hash (imageList ! i), images = grp\<rparr>], processed')
            else (groups, processed')))"

definition findDuplicateGroups :: "number \<Rightarrow> ImageWithHash list \<Rightarrow> DuplicateGroup list" where
  "findDuplicateGroups threshold imageList =
     fst (fold (outerStep threshold imageList) [0..<length imageList] ([], {}))"

definition findDuplicates :: "ImageWithHash list \<Rightarrow> DuplicateGroup list" where
  "findDuplicates imageList = findDuplicateGroups (ofNat 90) imageList"

text \<open>
  The same two loops with the positions kept: a group is the list of the indices whose
  records the source pushes. \<open>materialise\<close> turns such a group into the record the source
  builds; \<open>findDuplicateGroups_positions\<close> below shows that nothing else differs.
\<close>

definition innerStepIdx ::
  "number \<Rightarrow> ImageWithHash list \<Rightarrow> nat \<Rightarrow> nat \<Rightarrow> nat list \<times> nat set \<Rightarrow> nat list \<times> nat set" where
  "innerStepIdx threshold imageList i j = (\<lambda>(grp, processed).
     if j \<in> processed then (grp, processed)
     else
       (let similarity = calculateSimilarity (hash (imageList ! i)) (hash (imageList ! j))
        in if fge similarity threshold
           then (grp @ [j], insert j processed)
           else (grp, processed)))"

definition outerStepIdx ::
  "number \<Rightarrow> ImageWithHash list \<Rightarrow> nat \<Rightarrow> nat list list \<times> nat set \<Rightarrow> nat list list \<times> nat set" where
  "outerStepIdx threshold imageList i = (\<lambda>(groups, processed).
     if i \<in> processed then (groups, processed)
     else
       (case fold (innerStepIdx threshold imageList i) [i + 1..<length imageList]
               ([i], insert i processed) of
          (grp, processed') \<Rightarrow>
            if 1 < length grp then (groups @ [grp], processed') else (groups, processed')))"

definition groupPositions :: "number \<Rightarrow> ImageWithHash list \<Rightarrow> nat list list" where
  "groupPositions threshold imageList =
     fst (fold (outerStepIdx threshold imageList) [0..<length imageList] ([], {}))"

definition materialise :: "ImageWithHash list \<Rightarrow> nat list \<Rightarrow> DuplicateGroup" where
  "materialise imageList g =
     \<lparr>seedHash = hash (imageList ! hd g), images = map (\<lambda>k. imageList ! k) g\<rparr>"

text \<open>The similarity of the records at two positions.\<close>

definition sim :: "ImageWithHash list \<Rightarrow> nat \<Rightarrow> nat \<Rightarrow> number" where
  "sim imageList i j = calculateSimilarity (hash (imageList ! i)) (hash (imageList ! j))"


text \<open>The Hamming distance of two fingerprints: the number of positions where they differ.\<close>

definition hamming :: "string \<Rightarrow> string \<Rightarrow> nat" where
  "hamming a b = length (filter (\<lambda>(x, y). x \<noteq> y) (zip a b))"


section \<open>handleFiles\<close>

text \<open>
  The component state that \<^verbatim>\<open>handleFiles\<close> reads and writes: \<^verbatim>\<open>images\<close> (here
  \<open>stateImages\<close>), \<^verbatim>\<open>duplicateGroups\<close>, \<^verbatim>\<open>isProcessing\<close>, and the texts passed to
  \<^verbatim>\<open>alert\<close>, in order. The progress percentage is display only and is left out.
\<close>

record State =
  stateImages :: "ImageWithHash list"
  duplicateGroups :: "DuplicateGroup list"
  isProcessing :: bool
  alerts :: "string list"

definition startsWith :: "string \<Rightarrow> string \<Rightarrow> bool" where
  "startsWith s p = (take (length p) s = p)"

text \<open>
  The \<^verbatim>\<open>for\<close> loop inside \<^verbatim>\<open>try\<close>: each \<^verbatim>\<open>await\<close> either yields its value or throws,
  and a throw leaves the loop.
\<close>

fun processFiles ::
  "loader \<Rightarrow> (File \<Rightarrow> string) \<Rightarrow> File list \<Rightarrow> ImageWithHash list \<Rightarrow> error + ImageWithHash list" where
  "processFiles load createObjectURL [] newImages = Inr newImages"
| "processFiles load createObjectURL (f # rest) newImages =
     (case getImageInfo load f of
        Inl e \<Rightarrow> Inl e
      | Inr i \<Rightarrow>
          (case generateImageHash load f of
             Inl e \<Rightarrow> Inl e
           | Inr h \<Rightarrow>
               processFiles load createObjectURL rest
                 (newImages @ [\<lparr>imageFile = f, url = createObjectURL f, info = i, hash = h\<rparr>])))"

definition handleFiles :: "loader \<Rightarrow> (File \<Rightarrow> string) \<Rightarrow> File list \<Rightarrow> State \<Rightarrow> State" where
  "handleFiles load createObjectURL selectedFiles st =
     (let imageFiles = filter (\<lambda>f. startsWith (mime f) ''image/'') selectedFiles
      in if imageFiles = [] then st\<lparr>alerts := alerts st @ [''Please select image files'']\<rparr>
         else
           (case processFiles load createObjectURL imageFiles [] of
              Inr newImages \<Rightarrow>
                (let allImages = stateImages st @ newImages
                 in st\<lparr>stateImages := allImages, duplicateGroups := findDuplicates allImages,
                       isProcessing := False\<rparr>)
            | Inl e \<Rightarrow>
                st\<lparr>alerts := alerts st @ [''Error processing some images''],
                   isProcessing := False\<rparr>))"


section \<open>Auxiliary notions for the proofs\<close>

text \<open>
  The records a seed at position \<open>i\<close> collects when \<open>P\<close> is the set of processed positions,
  the state of the outer loop after \<open>k\<close> rounds, and what holds of that state.
\<close>

definition members :: "number \<Rightarrow> ImageWithHash list \<Rightarrow> nat set \<Rightarrow> nat \<Rightarrow> nat list" where
  "members t xs P i = filter (\<lambda>j. j \<notin> P \<and> fge (sim xs i j) t) [i + 1..<length xs]"

definition loopState :: "number \<Rightarrow> ImageWithHash list \<Rightarrow> nat \<Rightarrow> nat list list \<times> nat set" where
  "loopState t xs k = fold (outerStepIdx t xs) [0..<k] ([], {})"

definition basicInv :: "ImageWithHash list \<Rightarrow> nat \<Rightarrow> nat list list \<times> nat set \<Rightarrow> bool" where
  "basicInv xs k = (\<lambda>(G, P).
     P = {0..<k} \<union> set (concat G) \<and>
     (\<forall>g \<in> set G. 2 \<le> length g \<and> hd g < k \<and> sorted_wrt (<) g \<and> (\<forall>j \<in> set g. j < length xs)) \<and>
     distinct (concat G) \<and> sorted_wrt (<) (map hd G))"

definition memberInv :: "number \<Rightarrow> ImageWithHash list \<Rightarrow> nat list list \<Rightarrow> bool" where
  "memberInv t xs G =
     (\<forall>g \<in> set G. \<forall>j. hd g < j \<and> j < length xs \<longrightarrow>
        (j \<in> set g \<longleftrightarrow>
           fge (sim xs (hd g) j) t \<and> (\<forall>g' \<in> set G. hd g' < hd g \<longrightarrow> j \<notin> set g')))"


section \<open>Concrete inputs\<close>

definition mkImage :: "string \<Rightarrow> string \<Rightarrow> ImageWithHash" where
  "mkImage n h =
     \<lparr>imageFile = \<lparr>fileName = n, mime = ''image/png'', bytes = 0\<rparr>, url = n,
      info = \<lparr>width = 8, height = 8, infoSize = 0, infoType = ''image/png'', infoName = n\<rparr>,
      hash = h\<rparr>"

text \<open>A 64-bit fingerprint of \<open>a\<close> leading ones, zeros, and \<open>b\<close> trailing ones.\<close>

definition bitsHash :: "nat \<Rightarrow> nat \<Rightarrow> string" where
  "bitsHash a b = replicate a CHR ''1'' @ replicate (64 - a - b) CHR ''0'' @ replicate b CHR ''1''"

text \<open>
  \<open>chain3\<close>: \<open>a\<close> and \<open>b\<close> differ in 5 bits, \<open>b\<close> and \<open>c\<close> in 4, \<open>a\<close> and \<open>c\<close> in 9.
  \<open>star3\<close>: \<open>b\<close> and \<open>c\<close> each differ from \<open>a\<close> in 6 bits and from each other in 12.
\<close>

definition chain3 :: "ImageWithHash list" where
  "chain3 = [mkImage ''a'' (bitsHash 0 0), mkImage ''b'' (bitsHash 5 0), mkImage ''c'' (bitsHash 9 0)]"

definition star3 :: "ImageWithHash list" where
  "star3 = [mkImage ''a'' (bitsHash 0 0), mkImage ''b'' (bitsHash 6 0), mkImage ''c'' (bitsHash 0 6)]"

definition pngFile :: "string \<Rightarrow> File" where
  "pngFile n = \<lparr>fileName = n, mime = ''image/png'', bytes = 100\<rparr>"

text \<open>A browser in which the file named \<open>bad\<close> does not decode and every other file is black.\<close>

definition badLoader :: loader where
  "badLoader f =
     (if fileName f = ''bad'' then None
      else Some \<lparr>imgWidth = 8, imgHeight = 8, canvasData = Some (solid 0 0 0 255)\<rparr>)"

text \<open>\<^verbatim>\<open>URL.createObjectURL\<close>, and two batches of files.\<close>

definition blobUrl :: "File \<Rightarrow> string" where
  "blobUrl f = ''blob:'' @ fileName f"

definition goodBatch :: "File list" where
  "goodBatch = [pngFile ''good1'', pngFile ''good2'']"

definition mixedBatch :: "File list" where
  "mixedBatch = [pngFile ''good1'', pngFile ''bad'', pngFile ''good2'']"

definition emptyState :: State where
  "emptyState = \<lparr>stateImages = [], duplicateGroups = [], isProcessing = False, alerts = []\<rparr>"


section \<open>The three literals, and a familiar sum\<close>

text \<open>
  The doubles that \<^verbatim>\<open>0.299\<close>, \<^verbatim>\<open>0.587\<close> and \<^verbatim>\<open>0.114\<close> denote, with the significands
  \<^verbatim>\<open>0x1322D0E5604189\<close>, \<^verbatim>\<open>0x12C8B439581062\<close> and \<^verbatim>\<open>0x1D2F1A9FBE76C9\<close>; and
  \<^verbatim>\<open>0.1 + 0.2\<close>, which is one unit in the last place above \<^verbatim>\<open>0.3\<close>.
\<close>

lemma literal_0299: "decimal 299 1000 = Fin 5386305154335113 (- 54)"
  by code_simp

lemma literal_0587: "decimal 587 1000 = Fin 5287225962532962 (- 53)"
  by code_simp

lemma literal_0114: "decimal 114 1000 = Fin 8214565720323785 (- 56)"
  by code_simp

lemma tenth_plus_fifth:
  "fadd (decimal 1 10) (decimal 2 10) = Fin 5404319552844596 (- 54)
   \<and> decimal 3 10 = Fin 5404319552844595 (- 54)"
  by code_simp


section \<open>The loops of findDuplicates in closed form\<close>

lemma fold_innerStepIdx:
  "distinct js \<Longrightarrow>
   fold (innerStepIdx t xs i) js (g, P) =
     (g @ filter (\<lambda>j. j \<notin> P \<and> fge (sim xs i j) t) js,
      P \<union> set (filter (\<lambda>j. j \<notin> P \<and> fge (sim xs i j) t) js))"
proof (induction js arbitrary: g P)
  case Nil
  then show ?case by simp
next
  case (Cons j js)
  have rest: "filter (\<lambda>j'. j' \<notin> insert j P \<and> fge (sim xs i j') t) js
              = filter (\<lambda>j'. j' \<notin> P \<and> fge (sim xs i j') t) js"
    using Cons.prems by (intro filter_cong) auto
  from Cons.prems have d: "distinct js" by simp
  show ?case
    using Cons.IH [OF d] rest
    by (auto simp: innerStepIdx_def sim_def Let_def)
qed

lemma fold_innerStep:
  "distinct js \<Longrightarrow>
   fold (innerStep t xs i) js (g, P) =
     (g @ map (\<lambda>k. xs ! k) (filter (\<lambda>j. j \<notin> P \<and> fge (sim xs i j) t) js),
      P \<union> set (filter (\<lambda>j. j \<notin> P \<and> fge (sim xs i j) t) js))"
proof (induction js arbitrary: g P)
  case Nil
  then show ?case by simp
next
  case (Cons j js)
  have rest: "filter (\<lambda>j'. j' \<notin> insert j P \<and> fge (sim xs i j') t) js
              = filter (\<lambda>j'. j' \<notin> P \<and> fge (sim xs i j') t) js"
    using Cons.prems by (intro filter_cong) auto
  from Cons.prems have d: "distinct js" by simp
  show ?case
    using Cons.IH [OF d] rest
    by (auto simp: innerStep_def sim_def Let_def)
qed

lemma members_insert: "members t xs (insert i P) i = members t xs P i"
  unfolding members_def by (intro filter_cong) auto

lemma outerStepIdx_eq:
  "outerStepIdx t xs i (G, P) =
     (if i \<in> P then (G, P)
      else (if members t xs P i = [] then G else G @ [i # members t xs P i],
            insert i P \<union> set (members t xs P i)))"
  using fold_innerStepIdx [of "[i + 1..<length xs]" t xs i "[i]" "insert i P"] members_insert [of t xs i P]
  by (auto simp: outerStepIdx_def members_def)

lemma outerStep_eq:
  "outerStep t xs i (map (materialise xs) G, P) =
     (if i \<in> P then (map (materialise xs) G, P)
      else (map (materialise xs) (if members t xs P i = [] then G else G @ [i # members t xs P i]),
            insert i P \<union> set (members t xs P i)))"
  using fold_innerStep [of "[i + 1..<length xs]" t xs i "[xs ! i]" "insert i P"] members_insert [of t xs i P]
  by (auto simp: outerStep_def members_def materialise_def)

lemma fold_outerStep_materialise:
  "fold (outerStep t xs) ks (map (materialise xs) G, P) =
     (map (materialise xs) (fst (fold (outerStepIdx t xs) ks (G, P))),
      snd (fold (outerStepIdx t xs) ks (G, P)))"
proof (induction ks arbitrary: G P)
  case Nil
  then show ?case by simp
next
  case (Cons k ks)
  show ?case
    by (simp add: outerStep_eq outerStepIdx_eq Cons.IH del: map_append)
qed

lemma findDuplicateGroups_positions:
  "findDuplicateGroups t xs = map (materialise xs) (groupPositions t xs)"
  using fold_outerStep_materialise [of t xs "[0..<length xs]" "[]" "{}"]
  by (simp add: findDuplicateGroups_def groupPositions_def)

lemma set_members:
  "set (members t xs P i) = {j. i < j \<and> j < length xs \<and> j \<notin> P \<and> fge (sim xs i j) t}"
  by (auto simp: members_def)

lemma sorted_members: "sorted_wrt (<) (i # members t xs P i)"
  by (auto simp: members_def sorted_wrt_filter)


section \<open>Invariants of the outer loop\<close>

lemma basicInv_step:
  assumes "basicInv xs k (G, P)" and "k < length xs"
  shows "basicInv xs (Suc k) (outerStepIdx t xs k (G, P))"
proof (cases "k \<in> P")
  case True
  with assms show ?thesis
    by (auto simp: basicInv_def outerStepIdx_eq less_Suc_eq)
next
  case False
  note kP = this
  from assms have P: "P = {0..<k} \<union> set (concat G)"
    and G: "\<forall>g \<in> set G. 2 \<le> length g \<and> hd g < k \<and> sorted_wrt (<) g \<and> (\<forall>j \<in> set g. j < length xs)"
    and D: "distinct (concat G)" and S: "sorted_wrt (<) (map hd G)"
    by (auto simp: basicInv_def)
  show ?thesis
  proof (cases "members t xs P k = []")
    case True
    with kP P G D S show ?thesis
      by (auto simp: basicInv_def outerStepIdx_eq less_Suc_eq)
  next
    case False
    let ?ms = "members t xs P k"
    have step: "outerStepIdx t xs k (G, P) = (G @ [k # ?ms], insert k P \<union> set ?ms)"
      using kP False by (simp add: outerStepIdx_eq)
    have 1: "insert k P \<union> set ?ms = {0..<Suc k} \<union> set (concat (G @ [k # ?ms]))"
      using P by auto
    have 2: "\<forall>g \<in> set (G @ [k # ?ms]). 2 \<le> length g \<and> hd g < Suc k \<and> sorted_wrt (<) g
               \<and> (\<forall>j \<in> set g. j < length xs)"
    proof
      fix g assume "g \<in> set (G @ [k # ?ms])"
      then consider "g \<in> set G" | "g = k # ?ms" by auto
      then show "2 \<le> length g \<and> hd g < Suc k \<and> sorted_wrt (<) g \<and> (\<forall>j \<in> set g. j < length xs)"
      proof cases
        case 1
        with G show ?thesis by (auto simp: less_Suc_eq)
      next
        case 2
        have "2 \<le> length (k # ?ms)" using False by (cases ?ms) auto
        moreover have "\<forall>j \<in> set (k # ?ms). j < length xs"
          using assms(2) by (auto simp: set_members)
        ultimately show ?thesis using 2 sorted_members [of k t xs P] by simp
      qed
    qed
    have "distinct (k # ?ms)"
      using sorted_members [of k t xs P] by (simp add: strict_sorted_iff del: sorted_wrt.simps)
    moreover have "set (concat G) \<inter> set (k # ?ms) = {}"
      using kP P by (auto simp: set_members)
    ultimately have 3: "distinct (concat (G @ [k # ?ms]))"
      using D by simp
    have 4: "sorted_wrt (<) (map hd (G @ [k # ?ms]))"
      using S G by (auto simp: sorted_wrt_append)
    show ?thesis
      unfolding step basicInv_def split_conv by (intro conjI 1 2 3 4)
  qed
qed

lemma memberInv_step:
  assumes B: "basicInv xs k (G, P)" and M: "memberInv t xs G"
  shows "memberInv t xs (fst (outerStepIdx t xs k (G, P)))"
proof (cases "k \<in> P \<or> members t xs P k = []")
  case True
  with M show ?thesis by (auto simp: outerStepIdx_eq)
next
  case False
  let ?ms = "members t xs P k"
  let ?G' = "G @ [k # ?ms]"
  from False have step: "fst (outerStepIdx t xs k (G, P)) = ?G'"
    by (simp add: outerStepIdx_eq)
  from B have P: "P = {0..<k} \<union> set (concat G)"
    and hd_lt: "\<And>g. g \<in> set G \<Longrightarrow> hd g < k"
    by (auto simp: basicInv_def)
  have "j \<in> set g \<longleftrightarrow>
          fge (sim xs (hd g) j) t \<and> (\<forall>g' \<in> set ?G'. hd g' < hd g \<longrightarrow> j \<notin> set g')"
    if g: "g \<in> set ?G'" and j: "hd g < j" "j < length xs" for g j
  proof (cases "g \<in> set G")
    case True
    have "(\<forall>g' \<in> set ?G'. hd g' < hd g \<longrightarrow> j \<notin> set g')
            \<longleftrightarrow> (\<forall>g' \<in> set G. hd g' < hd g \<longrightarrow> j \<notin> set g')"
      using hd_lt [OF True] by auto
    with M True j show ?thesis unfolding memberInv_def by blast
  next
    case False
    with g have geq: "g = k # ?ms" by auto
    have "j \<notin> P \<longleftrightarrow> (\<forall>g' \<in> set G. j \<notin> set g')"
      using P j geq by auto
    moreover have "(\<forall>g' \<in> set ?G'. hd g' < hd g \<longrightarrow> j \<notin> set g') \<longleftrightarrow> (\<forall>g' \<in> set G. j \<notin> set g')"
      using hd_lt geq by auto
    moreover have "j \<in> set g \<longleftrightarrow> j \<notin> P \<and> fge (sim xs k j) t"
      using j geq by (auto simp: set_members)
    ultimately show ?thesis using geq by auto
  qed
  then show ?thesis unfolding step memberInv_def by blast
qed

lemma loopState_Suc: "loopState t xs (Suc k) = outerStepIdx t xs k (loopState t xs k)"
  by (simp add: loopState_def)

lemma loopState_inv:
  "k \<le> length xs \<Longrightarrow>
   basicInv xs k (loopState t xs k) \<and> memberInv t xs (fst (loopState t xs k))"
proof (induction k)
  case 0
  show ?case by (simp add: loopState_def basicInv_def memberInv_def)
next
  case (Suc k)
  obtain G P where s: "loopState t xs k = (G, P)" by (cases "loopState t xs k")
  from Suc have B: "basicInv xs k (G, P)" and M: "memberInv t xs G"
    and k: "k < length xs"
    by (simp_all add: s)
  show ?case
    unfolding loopState_Suc s
    using basicInv_step [OF B k, of t] memberInv_step [OF B M]
    by simp
qed

lemma groupPositions_loopState: "groupPositions t xs = fst (loopState t xs (length xs))"
  by (simp add: groupPositions_def loopState_def)

lemma groupPositions_basic:
  assumes "g \<in> set (groupPositions t xs)"
  shows "2 \<le> length g" and "hd g < length xs" and "sorted_wrt (<) g" and "\<forall>j \<in> set g. j < length xs"
  using loopState_inv [of "length xs" xs t] assms
  by (auto simp: groupPositions_loopState basicInv_def split: prod.splits)

lemma groupPositions_distinct: "distinct (concat (groupPositions t xs))"
  using loopState_inv [of "length xs" xs t]
  by (auto simp: groupPositions_loopState basicInv_def split: prod.splits)

lemma groupPositions_sorted: "sorted_wrt (<) (map hd (groupPositions t xs))"
  using loopState_inv [of "length xs" xs t]
  by (auto simp: groupPositions_loopState basicInv_def split: prod.splits)

lemma groupPositions_member: "memberInv t xs (groupPositions t xs)"
  using loopState_inv [of "length xs" xs t]
  by (simp add: groupPositions_loopState)

lemma groupPositions_tl_gt:
  assumes "g \<in> set (groupPositions t xs)" and "j \<in> set (tl g)"
  shows "hd g < j" and "j < length xs"
proof -
  from groupPositions_basic [OF assms(1)] have s: "sorted_wrt (<) g" and b: "\<forall>j \<in> set g. j < length xs"
    and l: "2 \<le> length g" by auto
  from l obtain a r where g: "g = a # r" by (cases g) auto
  with s assms(2) show "hd g < j" by auto
  from b assms(2) g show "j < length xs" by auto
qed

lemma chain3_at_90: "groupPositions (ofNat 90) chain3 = [[0, 1]]"
  by code_simp

lemma chain3_at_93: "groupPositions (ofNat 93) chain3 = [[1, 2]]"
  by code_simp

lemma star3_at_90: "groupPositions (ofNat 90) star3 = [[0, 1, 2]]"
  by code_simp


section \<open>The duplicate clusterer\<close>

text \<open>
  C5. In every returned group each member other than the seed is at least \<open>threshold\<close>
  similar to the seed, and nothing but the seed decides membership: a later record \<open>j\<close>
  belongs to the group seeded at \<open>hd g\<close> exactly when it is that similar to the seed and
  no group with an earlier seed has taken it. The similarity of \<open>j\<close> to the other
  members plays no part. Groups are given by the positions of their records;
  the first conjunct ties them to the records the source returns.
\<close>

theorem seed_decides_membership:
  "findDuplicateGroups threshold imageList
     = map (materialise imageList) (groupPositions threshold imageList)
   \<and> (\<forall>g \<in> set (groupPositions threshold imageList). \<forall>j \<in> set (tl g).
         fge (sim imageList (hd g) j) threshold)
   \<and> (\<forall>g \<in> set (groupPositions threshold imageList). \<forall>j.
         hd g < j \<and> j < length imageList \<longrightarrow>
           (j \<in> set g \<longleftrightarrow>
              fge (sim imageList (hd g) j) threshold
              \<and> (\<forall>g' \<in> set (groupPositions threshold imageList). hd g' < hd g \<longrightarrow> j \<notin> set g')))"
proof (intro conjI ballI allI impI)
  show "findDuplicateGroups threshold imageList
     = map (materialise imageList) (groupPositions threshold imageList)"
    by (rule findDuplicateGroups_positions)
next
  fix g j assume g: "g \<in> set (groupPositions threshold imageList)" and j: "j \<in> set (tl g)"
  have "j \<in> set g" using j by (cases g) auto
  with groupPositions_member [of threshold imageList] g groupPositions_tl_gt [OF g j]
  show "fge (sim imageList (hd g) j) threshold"
    unfolding memberInv_def by blast
next
  fix g j assume "g \<in> set (groupPositions threshold imageList)"
    and "hd g < j \<and> j < length imageList"
  with groupPositions_member [of threshold imageList]
  show "j \<in> set g \<longleftrightarrow>
          fge (sim imageList (hd g) j) threshold
          \<and> (\<forall>g' \<in> set (groupPositions threshold imageList). hd g' < hd g \<longrightarrow> j \<notin> set g')"
    unfolding memberInv_def by blast
qed

theorem seed_decides_membership_witness:
  "[0, 1, 2] \<in> set (groupPositions (ofNat 90) star3)
   \<and> 2 \<in> set (tl [0, 1, 2 :: nat])
   \<and> fge (sim star3 0 2) (ofNat 90)
   \<and> \<not> fge (sim star3 1 2) (ofNat 90)
   \<and> hd [0, 1, 2 :: nat] < 2 \<and> 2 < length star3 \<and> 2 \<in> set [0, 1, 2 :: nat]"
proof -
  have n: "\<not> fge (sim star3 1 2) (ofNat 90)" by code_simp
  have l: "length star3 = 3" by (simp add: star3_def)
  from seed_decides_membership [of "ofNat 90" star3] n l show ?thesis
    by (simp add: star3_at_90)
qed

text \<open>
  C6. The first element of every returned group is the record at the group's first
  position, no member of the group stands before it in the input, and the groups come
  in the order of their seeds' positions.
\<close>

theorem seed_is_earliest:
  "findDuplicateGroups threshold imageList
     = map (materialise imageList) (groupPositions threshold imageList)
   \<and> (\<forall>g \<in> set (groupPositions threshold imageList).
         g \<noteq> [] \<and> hd (images (materialise imageList g)) = imageList ! hd g
         \<and> (\<forall>j \<in> set g. hd g \<le> j \<and> j < length imageList))
   \<and> sorted_wrt (<) (map hd (groupPositions threshold imageList))"
proof (intro conjI ballI)
  show "findDuplicateGroups threshold imageList
     = map (materialise imageList) (groupPositions threshold imageList)"
    by (rule findDuplicateGroups_positions)
next
  fix g assume g: "g \<in> set (groupPositions threshold imageList)"
  from groupPositions_basic [OF g] show ne: "g \<noteq> []" by auto
  then show "hd (images (materialise imageList g)) = imageList ! hd g"
    by (simp add: materialise_def hd_map)
  fix j assume j: "j \<in> set g"
  from ne obtain a r where ar: "g = a # r" by (cases g) auto
  from groupPositions_basic(3) [OF g] j ar show "hd g \<le> j" by auto
  from groupPositions_basic(4) [OF g] j show "j < length imageList" by auto
next
  show "sorted_wrt (<) (map hd (groupPositions threshold imageList))"
    by (rule groupPositions_sorted)
qed

theorem seed_is_earliest_witness:
  "[1, 2] \<in> set (groupPositions (ofNat 93) chain3)
   \<and> hd (images (materialise chain3 [1, 2])) = chain3 ! 1
   \<and> hd [1, 2 :: nat] \<le> 2 \<and> 2 < length chain3
   \<and> map images (findDuplicateGroups (ofNat 93) chain3) = [[chain3 ! 1, chain3 ! 2]]"
  using seed_is_earliest [of "ofNat 93" chain3]
  by (simp add: chain3_at_93 materialise_def)

text \<open>
  C7. No returned group has fewer than two members, and an input of fewer than two
  records yields no group.
\<close>

theorem no_singleton_groups:
  "(\<forall>g \<in> set (findDuplicateGroups threshold imageList). 2 \<le> length (images g))
   \<and> (length imageList < 2 \<longrightarrow> findDuplicateGroups threshold imageList = [])"
proof (intro conjI ballI impI)
  fix g assume "g \<in> set (findDuplicateGroups threshold imageList)"
  then obtain p where p: "p \<in> set (groupPositions threshold imageList)" and g: "g = materialise imageList p"
    by (auto simp: findDuplicateGroups_positions)
  from groupPositions_basic(1) [OF p] show "2 \<le> length (images g)"
    by (simp add: g materialise_def)
next
  assume short: "length imageList < 2"
  show "findDuplicateGroups threshold imageList = []"
  proof (rule ccontr)
    assume "findDuplicateGroups threshold imageList \<noteq> []"
    then obtain p where p: "p \<in> set (groupPositions threshold imageList)"
      by (cases "groupPositions threshold imageList") (auto simp: findDuplicateGroups_positions)
    from groupPositions_basic [OF p] have "distinct p" and "set p \<subseteq> {..<length imageList}" and "2 \<le> length p"
      by (auto simp: strict_sorted_iff)
    then have "2 \<le> card {..<length imageList}"
      using card_mono [of "{..<length imageList}" "set p"] by (simp add: distinct_card)
    with short show False by simp
  qed
qed

theorem no_singleton_groups_witness:
  "materialise chain3 [0, 1] \<in> set (findDuplicateGroups (ofNat 90) chain3)
   \<and> 2 \<le> length (images (materialise chain3 [0, 1]))
   \<and> length [hd chain3] < 2 \<and> findDuplicateGroups (ofNat 90) [hd chain3] = []"
  using no_singleton_groups [of "ofNat 90" chain3] no_singleton_groups [of "ofNat 90" "[hd chain3]"]
  by (simp add: findDuplicateGroups_positions chain3_at_90)

text \<open>
  C8. The returned groups are pairwise disjoint and without repetition: listing the
  positions of all groups one after the other gives no position of the input twice.
\<close>

theorem groups_disjoint:
  "findDuplicateGroups threshold imageList
     = map (materialise imageList) (groupPositions threshold imageList)
   \<and> distinct (concat (groupPositions threshold imageList))
   \<and> set (concat (groupPositions threshold imageList)) \<subseteq> {..<length imageList}"
  using groupPositions_basic(4) [of _ threshold imageList]
  by (auto simp: findDuplicateGroups_positions groupPositions_distinct)

theorem groups_disjoint_witness:
  "map images (findDuplicateGroups (ofNat 90) star3) = [star3]
   \<and> distinct (concat (groupPositions (ofNat 90) star3))
   \<and> set (concat (groupPositions (ofNat 90) star3)) \<subseteq> {..<length star3}"
proof -
  have l: "length star3 = 3" and n: "[star3 ! 0, star3 ! 1, star3 ! 2] = star3"
    by (simp_all add: star3_def)
  from groups_disjoint [of "ofNat 90" star3] l n show ?thesis
    by (simp add: star3_at_90 materialise_def)
qed

text \<open>
  C9, as the code has it. Only the pairs of a seed and a member meet the threshold: in
  every returned group the group's hash is the hash of its first record, and every other
  member is at least \<open>threshold\<close> similar to it. Two members other than the seed need not
  be that similar to each other.
\<close>

theorem seed_similarity_only:
  "\<forall>g \<in> set (findDuplicateGroups threshold imageList).
     images g \<noteq> [] \<and> seedHash g = hash (hd (images g))
     \<and> (\<forall>b \<in> set (tl (images g)). fge (calculateSimilarity (seedHash g) (hash b)) threshold)"
proof
  fix g assume "g \<in> set (findDuplicateGroups threshold imageList)"
  then obtain p where p: "p \<in> set (groupPositions threshold imageList)" and g: "g = materialise imageList p"
    by (auto simp: findDuplicateGroups_positions)
  from groupPositions_basic(1) [OF p] have ne: "p \<noteq> []" by auto
  have "fge (calculateSimilarity (seedHash g) (hash b)) threshold" if "b \<in> set (tl (images g))" for b
  proof -
    from that obtain j where j: "j \<in> set (tl p)" and b: "b = imageList ! j"
      by (auto simp: g materialise_def map_tl [symmetric])
    have "j \<in> set p" using j by (cases p) auto
    with groupPositions_member [of threshold imageList] p groupPositions_tl_gt [OF p j]
    have "fge (sim imageList (hd p) j) threshold"
      unfolding memberInv_def by blast
    then show ?thesis by (simp add: sim_def g b materialise_def)
  qed
  with ne show "images g \<noteq> [] \<and> seedHash g = hash (hd (images g))
     \<and> (\<forall>b \<in> set (tl (images g)). fge (calculateSimilarity (seedHash g) (hash b)) threshold)"
    by (simp add: g materialise_def hd_map)
qed

theorem seed_similarity_only_witness:
  "materialise star3 [0, 1, 2] \<in> set (findDuplicateGroups (ofNat 90) star3)
   \<and> star3 ! 2 \<in> set (tl (images (materialise star3 [0, 1, 2])))
   \<and> fge (calculateSimilarity (seedHash (materialise star3 [0, 1, 2])) (hash (star3 ! 2))) (ofNat 90)"
  using seed_similarity_only [of "ofNat 90" star3]
  by (simp add: findDuplicateGroups_positions star3_at_90 materialise_def)

text \<open>
  C9 as stated fails on \<open>star3\<close>: \<open>findDuplicates\<close> returns the three records as one group,
  and the second and third are only 81.25 percent similar (12 of 64 bits differ).
\<close>

theorem pairwise_similarity_counterexample:
  "map images (findDuplicates star3) = [star3]
   \<and> \<not> fge (calculateSimilarity (hash (star3 ! 1)) (hash (star3 ! 2))) (ofNat 90)"
  by code_simp


section \<open>The similarity of two fingerprints\<close>

lemma fold_count:
  "fold (\<lambda>i d. if P i then d + 1 else d) js (d0::nat) = d0 + length (filter P js)"
  by (induction js arbitrary: d0) auto

lemma zip_as_map_nth:
  "length a = length b \<Longrightarrow> zip a b = map (\<lambda>i. (a ! i, b ! i)) [0..<length a]"
  by (rule nth_equalityI) auto

lemma countDifferences_hamming:
  assumes "length a = length b"
  shows "countDifferences a b = hamming a b"
proof -
  have "countDifferences a b = length (filter (\<lambda>i. charAt a i \<noteq> charAt b i) [0..<length a])"
    by (simp add: countDifferences_def fold_count)
  also have "filter (\<lambda>i. charAt a i \<noteq> charAt b i) [0..<length a]
             = filter (\<lambda>i. a ! i \<noteq> b ! i) [0..<length a]"
    using assms by (intro filter_cong) (auto simp: charAt_def)
  also have "length \<dots> = hamming a b"
    by (simp add: hamming_def zip_as_map_nth [OF assms] filter_map comp_def)
  finally show ?thesis .
qed

lemma hamming_le: "hamming a b \<le> length a"
proof -
  have "hamming a b \<le> length (zip a b)"
    unfolding hamming_def by (rule length_filter_le)
  then show ?thesis by simp
qed

lemma valof_roundToDouble_exact:
  assumes "0 \<le> m" and "bitlen m \<le> 53"
  shows "valof (roundToDouble m e) = of_int m * 2 powi e" and "isFinite (roundToDouble m e)"
proof -
  let ?k = "53 - bitlen m"
  have "(2::rat) powi e = 2 powi (e - int ?k) * 2 powi (int ?k)"
    using power_int_add [of "2::rat" "e - int ?k" "int ?k"] by simp
  then have "(2::rat) powi e = 2 powi (e - int ?k) * 2 ^ ?k"
    by simp
  then show "valof (roundToDouble m e) = of_int m * 2 powi e"
    using assms by (simp add: roundToDouble_def)
  show "isFinite (roundToDouble m e)"
    using assms by (simp add: roundToDouble_def)
qed

lemma similarity_table:
  "list_all (\<lambda>d. fmul (fdiv (ofNat (64 - d)) (ofNat 64)) (ofNat 100)
                    = roundToDouble (int ((64 - d) * 25)) (- 4)
                  \<and> bitlen (int ((64 - d) * 25)) \<le> 53) [0..<65]"
  by code_simp

text \<open>
  C4. For two fingerprints of 64 characters each, \<open>calculateSimilarity\<close> returns a finite
  number whose value is exactly \<open>((length - d) / length) * 100\<close>, \<open>d\<close> the Hamming
  distance, and that value lies between 0 and 100. No rounding occurs: the quotient by 64
  and its product with 100 are representable.
\<close>

theorem similarity_formula:
  assumes "length a = 64" and "length b = 64"
  shows "isFinite (calculateSimilarity a b)
         \<and> valof (calculateSimilarity a b)
             = (of_nat (length a - hamming a b) / of_nat (length a)) * 100
         \<and> 0 \<le> valof (calculateSimilarity a b) \<and> valof (calculateSimilarity a b) \<le> 100"
proof -
  let ?d = "hamming a b"
  have d: "?d < 65" using hamming_le [of a b] assms by simp
  have cs: "calculateSimilarity a b = fmul (fdiv (ofNat (64 - ?d)) (ofNat 64)) (ofNat 100)"
    using assms by (simp add: calculateSimilarity_def countDifferences_hamming)
  from similarity_table d
  have t: "fmul (fdiv (ofNat (64 - ?d)) (ofNat 64)) (ofNat 100)
             = roundToDouble (int ((64 - ?d) * 25)) (- 4)"
    and bl: "bitlen (int ((64 - ?d) * 25)) \<le> 53"
    unfolding list_all_iff by auto
  have v: "valof (calculateSimilarity a b) = of_int (int ((64 - ?d) * 25)) * 2 powi (- 4)"
    unfolding cs t by (rule valof_roundToDouble_exact(1) [OF _ bl]) simp
  have f: "isFinite (calculateSimilarity a b)"
    unfolding cs t by (rule valof_roundToDouble_exact(2) [OF _ bl]) simp
  have "(2::rat) powi (- 4) = 1 / 16" by (simp add: power_int_minus)
  with v have v': "valof (calculateSimilarity a b) = of_nat (64 - ?d) * 25 / 16"
    by simp
  have le: "(of_nat (64 - ?d) :: rat) \<le> 64"
    by (metis diff_le_self of_nat_le_iff of_nat_numeral)
  from v' f le show ?thesis using assms by simp
qed

theorem similarity_formula_witness:
  "length (bitsHash 5 0) = 64 \<and> length (bitsHash 0 0) = 64
   \<and> hamming (bitsHash 5 0) (bitsHash 0 0) = 5
   \<and> valof (calculateSimilarity (bitsHash 5 0) (bitsHash 0 0)) = 59 / 64 * 100"
proof -
  have a: "length (bitsHash 5 0) = 64" and b: "length (bitsHash 0 0) = 64"
    by (simp_all add: bitsHash_def)
  have h: "hamming (bitsHash 5 0) (bitsHash 0 0) = 5" by code_simp
  from similarity_formula [OF a b] a b h show ?thesis by simp
qed


section \<open>The fingerprint\<close>

lemma grayAt_luminance:
  "i + 2 < length pixels \<Longrightarrow>
   grayAt pixels i = luminance (pixels ! i) (pixels ! (i + 1)) (pixels ! (i + 2))"
  by (simp add: grayAt_def luminance_def byteAt_def)

lemma grayscaleLoop_closed:
  "length pixels = i + 4 * m \<Longrightarrow>
   grayscaleLoop pixels i (gs, s) =
     (gs @ map (\<lambda>k. grayAt pixels (i + 4 * k)) [0..<m],
      fold (\<lambda>gray t. fadd t gray) (map (\<lambda>k. grayAt pixels (i + 4 * k)) [0..<m]) s)"
proof (induction m arbitrary: i gs s)
  case 0
  then show ?case by (simp add: grayscaleLoop.simps)
next
  case (Suc m)
  from Suc.prems have lt: "i < length pixels" and len: "length pixels = (i + 4) + 4 * m"
    by simp_all
  have shift: "map (\<lambda>k. grayAt pixels (i + 4 * k)) [0..<Suc m]
               = grayAt pixels i # map (\<lambda>k. grayAt pixels (i + 4 + 4 * k)) [0..<m]"
    by (simp only: map_upt_Suc) (simp add: add.assoc)
  show ?case
    unfolding shift
    using lt Suc.IH [OF len]
    by (subst grayscaleLoop.simps) (simp add: Let_def)
qed

lemma fold_append_bits:
  "fold (\<lambda>gray h. h @ (if P gray then ''1'' else ''0'')) gs h0
     = h0 @ map (\<lambda>gray. if P gray then CHR ''1'' else CHR ''0'') gs"
  by (induction gs arbitrary: h0) auto

lemma length_grayValues: "length (grayValues pixels) = 64"
  by (simp add: grayValues_def)

lemma hashPixels_256:
  assumes "length pixels = 256"
  shows "hashPixels pixels
           = map (\<lambda>gray. if fge gray (runningMean pixels) then CHR ''1'' else CHR ''0'')
               (grayValues pixels)"
proof -
  have "length pixels = 0 + 4 * 64" using assms by simp
  from grayscaleLoop_closed [OF this, of "[]" "ofNat 0"]
  have "grayscaleLoop pixels 0 ([], ofNat 0)
          = (grayValues pixels, fold (\<lambda>gray t. fadd t gray) (grayValues pixels) (ofNat 0))"
    by (simp add: grayValues_def)
  then show ?thesis
    by (simp add: hashPixels_def runningMean_def fold_append_bits length_grayValues)
qed

lemma nth_concat_replicate4:
  "k < n \<Longrightarrow> c < 4 \<Longrightarrow> concat (replicate n [r, g, b, a]) ! (4 * k + c) = [r, g, b, a] ! c"
proof (induction n arbitrary: k)
  case 0
  then show ?case by simp
next
  case (Suc n)
  show ?case
  proof (cases k)
    case 0
    from Suc.prems(2) have "c = 0 \<or> c = 1 \<or> c = 2 \<or> c = 3" by arith
    with 0 show ?thesis by auto
  next
    case (Suc k')
    with Suc.prems have "k' < n" by simp
    from Suc.IH [OF this Suc.prems(2)] Suc show ?thesis
      by (simp add: nth_append)
  qed
qed

lemma length_solid: "length (solid r g b a) = 256"
  by (simp add: solid_def length_concat sum_list_replicate)

lemma grayAt_solid:
  assumes "k < 64"
  shows "grayAt (solid r g b a) (4 * k) = luminance r g b"
proof -
  have "4 * k + 2 < length (solid r g b a)" using assms by (simp add: length_solid)
  from grayAt_luminance [OF this]
  show ?thesis
    using nth_concat_replicate4 [OF assms, of 0 r g b a]
      nth_concat_replicate4 [OF assms, of 1 r g b a]
      nth_concat_replicate4 [OF assms, of 2 r g b a]
    by (simp add: solid_def)
qed

lemma grayValues_solid: "grayValues (solid r g b a) = replicate 64 (luminance r g b)"
proof -
  have "map (\<lambda>k. grayAt (solid r g b a) (4 * k)) [0..<64] = map (\<lambda>k. luminance r g b) [0..<64]"
    by (intro map_cong) (auto simp: grayAt_solid)
  then show ?thesis by (simp add: grayValues_def map_replicate_const)
qed

lemma list_all_eq_replicate:
  "list_all (\<lambda>x. x = c) xs \<Longrightarrow> xs = replicate (length xs) c"
  by (induction xs) auto

lemma grayValues_constant:
  "constantLuminance pixels \<Longrightarrow> grayValues pixels = replicate 64 (grayAt pixels 0)"
  using list_all_eq_replicate [of "grayAt pixels 0" "grayValues pixels"]
  by (simp add: constantLuminance_def length_grayValues)

lemma hashPixels_constant:
  assumes "length pixels = 256" and "constantLuminance pixels"
  shows "hashPixels pixels
           = replicate 64 (if fge (grayAt pixels 0) (runningMean pixels) then CHR ''1'' else CHR ''0'')"
  by (simp add: hashPixels_256 [OF assms(1)] grayValues_constant [OF assms(2)])

lemma constantLuminance_solid: "constantLuminance (solid r g b a)"
  using grayAt_solid [of 0 r g b a]
  by (simp add: constantLuminance_def grayValues_solid list_all_iff)

lemma green_luminance: "luminance 0 255 0 = Fin 5266572736116818 (- 45)"
  by code_simp

lemma green_mean:
  "fdiv (fold (\<lambda>gray t. fadd t gray) (replicate 64 (Fin 5266572736116818 (- 45))) (ofNat 0)) (ofNat 64)
     = Fin 5266572736116821 (- 45)"
  by code_simp

lemma red_luminance: "luminance 255 0 0 = Fin 5365264899825991 (- 46)"
  by code_simp

lemma red_mean:
  "fdiv (fold (\<lambda>gray t. fadd t gray) (replicate 64 (Fin 5365264899825991 (- 46))) (ofNat 0)) (ofNat 64)
     = Fin 5365264899825986 (- 46)"
  by code_simp

lemma green_below_mean: "\<not> fge (Fin 5266572736116818 (- 45)) (Fin 5266572736116821 (- 45))"
  by (simp add: fge_def)

lemma red_above_mean: "fge (Fin 5365264899825991 (- 46)) (Fin 5365264899825986 (- 46))"
  by (simp add: fge_def)

lemma runningMean_green: "runningMean (solid 0 255 0 a) = Fin 5266572736116821 (- 45)"
  unfolding runningMean_def grayValues_solid green_luminance by (rule green_mean)

lemma runningMean_red: "runningMean (solid 255 0 0 a) = Fin 5365264899825986 (- 46)"
  unfolding runningMean_def grayValues_solid red_luminance by (rule red_mean)

lemma hashPixels_green: "hashPixels (solid 0 255 0 a) = replicate 64 CHR ''0''"
  using hashPixels_constant [OF length_solid constantLuminance_solid, of 0 255 0 a]
    grayAt_solid [of 0 0 255 0 a] green_below_mean
  by (simp add: runningMean_green green_luminance)

lemma hashPixels_red: "hashPixels (solid 255 0 0 a) = replicate 64 CHR ''1''"
  using hashPixels_constant [OF length_solid constantLuminance_solid, of 255 0 0 a]
    grayAt_solid [of 0 255 0 0 a] red_above_mean
  by (simp add: runningMean_red red_luminance)

lemma sameColours_solid: "sameColours (solid r g b a) (solid r g b a')"
proof -
  have "solid r g b a ! k = solid r g b a' ! k" if "k < 256" "k mod 4 \<noteq> 3" for k
  proof -
    have k: "k = 4 * (k div 4) + k mod 4" by simp
    have d: "k div 4 < 64" using that by simp
    have m: "k mod 4 < 4" by simp
    from that(2) m have "k mod 4 = 0 \<or> k mod 4 = 1 \<or> k mod 4 = 2"
      by arith
    then have "[r, g, b, a] ! (k mod 4) = [r, g, b, a'] ! (k mod 4)"
      by (elim disjE) simp_all
    then show ?thesis
      using nth_concat_replicate4 [OF d m, of r g b a] nth_concat_replicate4 [OF d m, of r g b a']
      unfolding solid_def using k by metis
  qed
  then show ?thesis
    unfolding sameColours_def list_all_iff by (metis atLeastLessThan_iff set_upt)
qed

lemma grayValues_sameColours:
  assumes "length p = 256" and "length q = 256" and "sameColours p q"
  shows "grayValues q = grayValues p"
proof -
  have eq: "q ! j = p ! j" if "j < 256" "j mod 4 \<noteq> 3" for j
    using assms(3) that unfolding sameColours_def list_all_iff by auto
  have "grayAt q (4 * k) = grayAt p (4 * k)" if "k < 64" for k
  proof -
    have a: "(4 * k) mod 4 \<noteq> 3" "(4 * k + 1) mod 4 \<noteq> 3" "(4 * k + 2) mod 4 \<noteq> 3"
      by presburger+
    have b: "4 * k < 256" "4 * k + 1 < 256" "4 * k + 2 < 256" using that by simp_all
    show ?thesis
      using eq [OF b(1) a(1)] eq [OF b(2) a(2)] eq [OF b(3) a(3)] assms(1,2) b
      by (simp add: grayAt_luminance)
  qed
  then show ?thesis
    unfolding grayValues_def by (intro map_cong) auto
qed

text \<open>
  What \<open>hashPixels\<close> computes for the 256 bytes of an 8 by 8 grid: 64 characters in scan
  order; character \<open>i\<close> is \<^verbatim>\<open>'1'\<close> exactly when the luminance of sample \<open>i\<close>, computed
  from its red, green and blue bytes, is at least \<open>runningMean\<close>, the value the loop
  arrives at for the average; and the alpha bytes play no part.
\<close>

theorem fingerprint_bits:
  assumes "length pixels = 256"
  shows "length (hashPixels pixels) = 64
         \<and> (\<forall>i<64. hashPixels pixels ! i =
               (if fge (luminance (pixels ! (4 * i)) (pixels ! (4 * i + 1)) (pixels ! (4 * i + 2)))
                       (runningMean pixels)
                then CHR ''1'' else CHR ''0''))
         \<and> (\<forall>q. length q = 256 \<and> sameColours pixels q \<longrightarrow> hashPixels q = hashPixels pixels)"
proof (intro conjI allI impI)
  show "length (hashPixels pixels) = 64"
    by (simp add: hashPixels_256 [OF assms] length_grayValues)
next
  fix i :: nat assume i: "i < 64"
  then have "4 * i + 2 < length pixels" using assms by simp
  from grayAt_luminance [OF this] i
  show "hashPixels pixels ! i =
          (if fge (luminance (pixels ! (4 * i)) (pixels ! (4 * i + 1)) (pixels ! (4 * i + 2)))
                  (runningMean pixels)
           then CHR ''1'' else CHR ''0'')"
    by (simp add: hashPixels_256 [OF assms] grayValues_def)
next
  fix q assume q: "length q = 256 \<and> sameColours pixels q"
  then have "grayValues q = grayValues pixels"
    using grayValues_sameColours [OF assms] by blast
  then show "hashPixels q = hashPixels pixels"
    using q by (simp add: hashPixels_256 assms runningMean_def)
qed

theorem fingerprint_bits_witness:
  "length (solid 0 255 0 255) = 256 \<and> (0::nat) < 64
   \<and> length (solid 0 255 0 0) = 256 \<and> sameColours (solid 0 255 0 255) (solid 0 255 0 0)
   \<and> hashPixels (solid 0 255 0 255) ! 0 = CHR ''0''
   \<and> \<not> fge (luminance (solid 0 255 0 255 ! (4 * 0)) (solid 0 255 0 255 ! (4 * 0 + 1))
                (solid 0 255 0 255 ! (4 * 0 + 2)))
          (runningMean (solid 0 255 0 255))
   \<and> hashPixels (solid 0 255 0 0) = hashPixels (solid 0 255 0 255)"
proof -
  have z: "(0::nat) < 64" by simp
  from fingerprint_bits [OF length_solid, of 0 255 0 255] z length_solid [of 0 255 0 0]
    sameColours_solid [of 0 255 0 255 0]
  have "hashPixels (solid 0 255 0 255) ! 0 =
          (if fge (luminance (solid 0 255 0 255 ! (4 * 0)) (solid 0 255 0 255 ! (4 * 0 + 1))
                     (solid 0 255 0 255 ! (4 * 0 + 2)))
                  (runningMean (solid 0 255 0 255))
           then CHR ''1'' else CHR ''0'')"
    and "hashPixels (solid 0 255 0 0) = hashPixels (solid 0 255 0 255)"
    by blast+
  then show ?thesis
    using length_solid sameColours_solid by (simp add: hashPixels_green split: if_splits)
qed

text \<open>
  C3. Bit \<open>i\<close> is to be 1 exactly when the luminance of sample \<open>i\<close> is at least the
  arithmetic mean of the 64 luminances. On a solid green grid the code does not do so:
  every sample has the same luminance, which therefore is its own arithmetic mean, yet
  the first bit is \<^verbatim>\<open>'0'\<close>. The running sum \<^verbatim>\<open>total += gray\<close> of 64 equal doubles, divided
  by 64, comes out three units in the last place above them, so the value the code
  compares with is not the average its comments name.
\<close>

theorem fingerprint_solid_green:
  "length (solid 0 255 0 255) = 256
   \<and> hashPixels (solid 0 255 0 255) ! 0 = CHR ''0''
   \<and> exactMean (solid 0 255 0 255) \<le> valof (grayAt (solid 0 255 0 255) (4 * 0))"
  using grayAt_solid [of 0 0 255 0 255]
  by (simp add: length_solid hashPixels_green exactMean_def grayValues_solid sum_list_replicate)

lemma hamming_replicate:
  "hamming (replicate n c) (replicate n c') = (if c = c' then 0 else n)"
  by (simp add: hamming_def zip_replicate)

lemma similarity_full: "fmul (fdiv (ofNat 64) (ofNat 64)) (ofNat 100) = ofNat 100"
  by code_simp

lemma similarity_none: "fmul (fdiv (ofNat 0) (ofNat 64)) (ofNat 100) = ofNat 0"
  by code_simp

lemma similarity_replicate:
  "calculateSimilarity (replicate 64 c) (replicate 64 c') = (if c = c' then ofNat 100 else ofNat 0)"
  by (simp add: calculateSimilarity_def countDifferences_hamming hamming_replicate
        similarity_full similarity_none)

text \<open>
  What the code computes where all 64 samples have the same luminance: all 64 bits of
  the fingerprint are equal, \<^verbatim>\<open>'1'\<close> if that luminance is at least \<open>runningMean\<close> and
  \<^verbatim>\<open>'0'\<close> otherwise, so that two such grids have similarity 100 when their bits agree
  and 0 when they do not.
\<close>

theorem constant_luminance_uniform:
  assumes "length p = 256" and "constantLuminance p"
    and "length q = 256" and "constantLuminance q"
  shows "hashPixels p = replicate 64 (hashPixels p ! 0)
         \<and> hashPixels p ! 0 = (if fge (grayAt p 0) (runningMean p) then CHR ''1'' else CHR ''0'')
         \<and> calculateSimilarity (hashPixels p) (hashPixels q)
             = (if hashPixels p ! 0 = hashPixels q ! 0 then ofNat 100 else ofNat 0)"
proof -
  have p0: "hashPixels p ! 0 = (if fge (grayAt p 0) (runningMean p) then CHR ''1'' else CHR ''0'')"
    by (simp add: hashPixels_constant [OF assms(1,2)])
  have q0: "hashPixels q ! 0 = (if fge (grayAt q 0) (runningMean q) then CHR ''1'' else CHR ''0'')"
    by (simp add: hashPixels_constant [OF assms(3,4)])
  have hp: "hashPixels p = replicate 64 (hashPixels p ! 0)"
    unfolding p0 by (rule hashPixels_constant [OF assms(1,2)])
  have hq: "hashPixels q = replicate 64 (hashPixels q ! 0)"
    unfolding q0 by (rule hashPixels_constant [OF assms(3,4)])
  have "calculateSimilarity (hashPixels p) (hashPixels q)
          = calculateSimilarity (replicate 64 (hashPixels p ! 0)) (replicate 64 (hashPixels q ! 0))"
    using hp hq by simp
  with hp p0 show ?thesis by (simp only: similarity_replicate)
qed

theorem constant_luminance_uniform_witness:
  "length (solid 0 255 0 255) = 256 \<and> constantLuminance (solid 0 255 0 255)
   \<and> length (solid 255 0 0 255) = 256 \<and> constantLuminance (solid 255 0 0 255)
   \<and> hashPixels (solid 0 255 0 255) = replicate 64 CHR ''0''
   \<and> \<not> fge (grayAt (solid 0 255 0 255) 0) (runningMean (solid 0 255 0 255))
   \<and> calculateSimilarity (hashPixels (solid 0 255 0 255)) (hashPixels (solid 255 0 0 255)) = ofNat 0"
  using constant_luminance_uniform [OF length_solid constantLuminance_solid length_solid
          constantLuminance_solid, of 0 255 0 255 255 0 0 255]
  by (simp add: length_solid constantLuminance_solid hashPixels_green hashPixels_red
        split: if_splits)

text \<open>
  C10. A grid of constant luminance is to get the all-ones fingerprint, and two such
  grids similarity 100. The code does not do so: a solid green grid and a solid red grid
  are both of constant luminance; the green one gets the all-zeros fingerprint, the red
  one the all-ones fingerprint, and their similarity is 0. The cause is the rounding in
  the running sum, as for C3.
\<close>

theorem constant_luminance_green_red:
  "length (solid 0 255 0 255) = 256 \<and> constantLuminance (solid 0 255 0 255)
   \<and> length (solid 255 0 0 255) = 256 \<and> constantLuminance (solid 255 0 0 255)
   \<and> hashPixels (solid 0 255 0 255) = replicate 64 CHR ''0''
   \<and> hashPixels (solid 255 0 0 255) = replicate 64 CHR ''1''
   \<and> calculateSimilarity (hashPixels (solid 0 255 0 255)) (hashPixels (solid 255 0 0 255)) = ofNat 0"
  by (simp add: length_solid constantLuminance_solid hashPixels_green hashPixels_red
        similarity_replicate)


section \<open>A batch with a file that does not decode\<close>

lemma processFiles_fails:
  "f \<in> set fs \<Longrightarrow> load f = None \<Longrightarrow> \<exists>e. processFiles load mk fs acc = Inl e"
proof (induction fs arbitrary: acc)
  case Nil
  then show ?case by simp
next
  case (Cons x fs)
  show ?case
  proof (cases "x = f")
    case True
    with Cons.prems show ?thesis by (simp add: getImageInfo_def)
  next
    case False
    with Cons.prems have "f \<in> set fs" by simp
    from Cons.IH [OF this Cons.prems(2)] show ?thesis
      by (auto split: sum.splits)
  qed
qed

text \<open>
  C2, as the code has it. If any image file of the selection fails to load, the whole
  batch is abandoned: no image of the batch is added, the groups are not recomputed, and
  the only report is the alert \<^verbatim>\<open>Error processing some images\<close>, which does not name the
  file.
\<close>

theorem decode_failure_aborts_batch:
  assumes "f \<in> set selectedFiles" and "startsWith (mime f) ''image/''" and "load f = None"
  shows "handleFiles load createObjectURL selectedFiles st
           = st\<lparr>alerts := alerts st @ [''Error processing some images''], isProcessing := False\<rparr>"
proof -
  let ?imageFiles = "filter (\<lambda>f. startsWith (mime f) ''image/'') selectedFiles"
  from assms(1,2) have in_batch: "f \<in> set ?imageFiles" by simp
  then have ne: "?imageFiles \<noteq> []" by (metis empty_iff empty_set)
  from processFiles_fails [where f = f and fs = ?imageFiles and load = load
      and mk = createObjectURL and acc = "[]", OF in_batch assms(3)]
  obtain e where "processFiles load createObjectURL ?imageFiles [] = Inl e" by blast
  with ne show ?thesis by (simp add: handleFiles_def Let_def)
qed

lemma black_luminance: "luminance 0 0 0 = Fin 0 0"
  by code_simp

lemma black_mean:
  "fdiv (fold (\<lambda>gray t. fadd t gray) (replicate 64 (Fin 0 0)) (ofNat 0)) (ofNat 64) = Fin 0 0"
  by code_simp

lemma runningMean_black: "runningMean (solid 0 0 0 a) = Fin 0 0"
  unfolding runningMean_def grayValues_solid black_luminance by (rule black_mean)

lemma hashPixels_black: "hashPixels (solid 0 0 0 a) = replicate 64 CHR ''1''"
  using hashPixels_constant [OF length_solid constantLuminance_solid, of 0 0 0 a]
    grayAt_solid [of 0 0 0 0 a]
  by (simp add: runningMean_black black_luminance fge_def)

lemma goodBatch_images:
  "processFiles badLoader blobUrl goodBatch []
     = Inr [\<lparr>imageFile = pngFile ''good1'', url = ''blob:good1'',
              info = \<lparr>width = 8, height = 8, infoSize = 100, infoType = ''image/png'', infoName = ''good1''\<rparr>,
              hash = replicate 64 CHR ''1''\<rparr>,
            \<lparr>imageFile = pngFile ''good2'', url = ''blob:good2'',
              info = \<lparr>width = 8, height = 8, infoSize = 100, infoType = ''image/png'', infoName = ''good2''\<rparr>,
              hash = replicate 64 CHR ''1''\<rparr>]"
  by (simp add: goodBatch_def badLoader_def getImageInfo_def generateImageHash_def pngFile_def
        blobUrl_def hashPixels_black)

lemma two_identical_groups:
  "length (findDuplicates
     [\<lparr>imageFile = pngFile ''good1'', url = ''blob:good1'',
              info = \<lparr>width = 8, height = 8, infoSize = 100, infoType = ''image/png'', infoName = ''good1''\<rparr>,
              hash = replicate 64 CHR ''1''\<rparr>,
            \<lparr>imageFile = pngFile ''good2'', url = ''blob:good2'',
              info = \<lparr>width = 8, height = 8, infoSize = 100, infoType = ''image/png'', infoName = ''good2''\<rparr>,
              hash = replicate 64 CHR ''1''\<rparr>]) = 1"
  by code_simp

lemma goodBatch_filter: "filter (\<lambda>f. startsWith (mime f) ''image/'') goodBatch = goodBatch"
  by (simp add: goodBatch_def pngFile_def startsWith_def)

lemma goodBatch_ne: "goodBatch \<noteq> []"
  by (simp add: goodBatch_def)

lemma pngFile_is_image: "startsWith (mime (pngFile n)) ''image/''"
  by (simp add: pngFile_def startsWith_def)

lemma bad_fails: "badLoader (pngFile ''bad'') = None"
  by (simp add: badLoader_def pngFile_def)

theorem decode_failure_aborts_batch_witness:
  "pngFile ''bad'' \<in> set mixedBatch \<and> startsWith (mime (pngFile ''bad'')) ''image/''
   \<and> badLoader (pngFile ''bad'') = None
   \<and> handleFiles badLoader blobUrl mixedBatch emptyState
       = emptyState\<lparr>alerts := [''Error processing some images'']\<rparr>"
proof -
  have a: "pngFile ''bad'' \<in> set mixedBatch" by (simp add: mixedBatch_def)
  from decode_failure_aborts_batch [where f = "pngFile ''bad''" and selectedFiles = mixedBatch
      and load = badLoader and createObjectURL = blobUrl and st = emptyState,
      OF a pngFile_is_image bad_fails]
    a pngFile_is_image bad_fails
  show ?thesis by (simp add: emptyState_def)
qed

text \<open>
  C2 as stated fails: two good files alone give two images and one group; the same two
  files with one that does not decode between them give no image, no group, and the
  generic alert.
\<close>

theorem decode_failure_counterexample:
  "length (stateImages (handleFiles badLoader blobUrl goodBatch emptyState)) = 2
   \<and> length (duplicateGroups (handleFiles badLoader blobUrl goodBatch emptyState)) = 1
   \<and> stateImages (handleFiles badLoader blobUrl mixedBatch emptyState) = []
   \<and> duplicateGroups (handleFiles badLoader blobUrl mixedBatch emptyState) = []
   \<and> alerts (handleFiles badLoader blobUrl mixedBatch emptyState) = [''Error processing some images'']"
proof -
  have m: "filter (\<lambda>f. startsWith (mime f) ''image/'') mixedBatch = mixedBatch"
    by (simp add: mixedBatch_def pngFile_def startsWith_def)
  have "processFiles badLoader blobUrl mixedBatch [] = Inl FailedToLoadImage"
    by (simp add: mixedBatch_def badLoader_def getImageInfo_def generateImageHash_def pngFile_def)
  then have bad: "handleFiles badLoader blobUrl mixedBatch emptyState
                    = emptyState\<lparr>alerts := [''Error processing some images'']\<rparr>"
    using m by (simp add: handleFiles_def emptyState_def mixedBatch_def)
  have good: "length (stateImages (handleFiles badLoader blobUrl goodBatch emptyState)) = 2
     \<and> length (duplicateGroups (handleFiles badLoader blobUrl goodBatch emptyState)) = 1"
    using goodBatch_ne
    by (simp add: handleFiles_def goodBatch_filter goodBatch_images emptyState_def
          two_identical_groups Let_def)
  from good bad show ?thesis by (simp add: emptyState_def)
qed

end
